theory Spec2Isabelle
  imports Main "HOL-Library.Sublist"
begin

section \<open>The analysis report of \<^verbatim>\<open>app.py\<close>: segmentation, export and display\<close>

text \<open>
  \<^verbatim>\<open>app.py\<close> receives the text of a language model's answer, cuts it at its
  \<^verbatim>\<open>mermaid\<close> code fences with
  \<^verbatim>\<open>re.split(re.compile(r"```mermaid\n(.*?)\n```", re.DOTALL), text)\<close>
  and hands the pieces, by the parity of their index, to two consumers: the
  function \<^verbatim>\<open>generate_html_report\<close> (lines 75 to 130) and the display loop of
  the page (lines 178 to 193).

  A text is a \<^typ>\<open>string\<close>, one \<^typ>\<open>char\<close> for each code point (the code points
  below 256; the delimiters are ASCII and the split looks at a character only to
  compare it with a character of a delimiter).
\<close>

subsection \<open>The pattern and the matcher\<close>

text \<open>
  The pattern \<^verbatim>\<open>mermaid_pattern\<close>, compiled from the same text at lines 81
  and 179, has three pieces: the literal \<^verbatim>\<open>```mermaid\n\<close>, the lazy group
  \<^verbatim>\<open>(.*?)\<close>, where the flag \<^verbatim>\<open>DOTALL\<close> lets the dot match the newline as
  well, and the literal \<^verbatim>\<open>\n```\<close>.
\<close>

definition opener :: string where
  \<open>opener = ''```mermaid\<newline>''\<close>

definition closer :: string where
  \<open>closer = ''\<newline>```''\<close>

text \<open>
  \<open>lazy_group t\<close> is the matcher after the opening literal, at the text \<open>t\<close>:
  the lazy star first tries the empty group and asks for the closing literal; when
  that fails it takes one more character, whatever it is, and tries again. The
  result is the group and the text after the match; \<open>None\<close> when the end of
  the text is reached.
\<close>

fun lazy_group :: "string \<Rightarrow> (string \<times> string) option" where
  "lazy_group [] = None"
| "lazy_group (c # t) =
     (if prefix closer (c # t) then Some ([], drop (length closer) (c # t))
      else map_option (\<lambda>(g, r). (c # g, r)) (lazy_group t))"

text \<open>
  \<open>mermaid_pattern_match s\<close>: the whole pattern tried at the first character
  of \<open>s\<close>.
\<close>

definition mermaid_pattern_match :: "string \<Rightarrow> (string \<times> string) option" where
  "mermaid_pattern_match s =
     (if prefix opener s then lazy_group (drop (length opener) s) else None)"

text \<open>
  \<open>mermaid_pattern_search s\<close>: the pattern tried at each position from left to
  right, as the engine does; the first position where it matches wins. The result
  is the text before the match, the group and the text after the match.
\<close>

fun mermaid_pattern_search :: "string \<Rightarrow> (string \<times> string \<times> string) option" where
  "mermaid_pattern_search [] = None"
| "mermaid_pattern_search (c # s) =
     (case mermaid_pattern_match (c # s) of
        Some (g, r) \<Rightarrow> Some ([], g, r)
      | None \<Rightarrow> map_option (\<lambda>(p, g, r). (c # p, g, r)) (mermaid_pattern_search s))"

lemma lazy_group_sound:
  "lazy_group t = Some (g, r) \<Longrightarrow> t = g @ closer @ r"
proof (induction t arbitrary: g)
  case Nil
  then show ?case by simp
next
  case (Cons c t)
  show ?case
  proof (cases "prefix closer (c # t)")
    case True
    with Cons.prems have "g = []" and "r = drop (length closer) (c # t)"
      by simp_all
    moreover from True obtain z where "c # t = closer @ z"
      by (auto simp: prefix_def)
    ultimately show ?thesis by simp
  next
    case False
    with Cons.prems obtain g' where "lazy_group t = Some (g', r)" and "g = c # g'"
      by auto
    with Cons.IH show ?thesis by simp
  qed
qed

lemma match_at_sound:
  "mermaid_pattern_match s = Some (g, r) \<Longrightarrow> s = opener @ g @ closer @ r"
proof -
  assume m: "mermaid_pattern_match s = Some (g, r)"
  then have p: "prefix opener s"
    by (simp add: mermaid_pattern_match_def split: if_splits)
  then obtain z where z: "s = opener @ z"
    by (auto simp: prefix_def)
  with m p have "lazy_group z = Some (g, r)"
    by (simp add: mermaid_pattern_match_def)
  then show ?thesis
    using z by (simp add: lazy_group_sound)
qed

lemma search_sound:
  "mermaid_pattern_search s = Some (p, g, r) \<Longrightarrow> s = p @ opener @ g @ closer @ r"
proof (induction s arbitrary: p)
  case Nil
  then show ?case by simp
next
  case (Cons c s)
  show ?case
  proof (cases "mermaid_pattern_match (c # s)")
    case None
    with Cons.prems obtain p' where "mermaid_pattern_search s = Some (p', g, r)" and "p = c # p'"
      by auto
    with Cons.IH show ?thesis by simp
  next
    case (Some m)
    with Cons.prems have "m = (g, r)" and "p = []"
      by (auto split: prod.splits)
    with Some show ?thesis
      by (simp add: match_at_sound)
  qed
qed

lemma search_shorter:
  "mermaid_pattern_search s = Some (p, g, r) \<Longrightarrow> length r < length s"
  by (drule search_sound) (simp add: opener_def)

subsection \<open>The split\<close>

text \<open>
  \<^verbatim>\<open>re.split\<close> with a pattern of one group returns the text before the first
  match, the group of the match, and then the split of the text after the match;
  a text with no match is returned whole, as the only element. (The pattern never
  matches the empty string, so the rule of \<^verbatim>\<open>re.split\<close> for empty matches
  plays no part.)
\<close>

function re_split :: "string \<Rightarrow> string list" where
  "re_split s =
     (case mermaid_pattern_search s of
        None \<Rightarrow> [s]
      | Some (p, g, r) \<Rightarrow> p # g # re_split r)"
  by pat_completeness auto
termination
  by (relation "measure length") (auto simp: search_shorter)

declare re_split.simps [simp del]

lemma re_split_None: "mermaid_pattern_search s = None \<Longrightarrow> re_split s = [s]"
  by (simp add: re_split.simps)

lemma re_split_Some:
  "mermaid_pattern_search s = Some (p, g, r) \<Longrightarrow> re_split s = p # g # re_split r"
  by (simp add: re_split.simps)

subsection \<open>What the split is measured against\<close>

text \<open>
  The specification describes the segmenter without the engine: find the first
  opening marker, then the first closing fence after it, and go on behind that
  fence. \<open>find_first w s\<close> cuts \<open>s\<close> at the first occurrence of \<open>w\<close>;
  \<open>fence_bodies s\<close> lists the interiors of the fence pairs found that way, in
  order.
\<close>

fun find_first :: "string \<Rightarrow> string \<Rightarrow> (string \<times> string) option" where
  "find_first w [] = (if w = [] then Some ([], []) else None)"
| "find_first w (c # s) =
     (if prefix w (c # s) then Some ([], drop (length w) (c # s))
      else map_option (\<lambda>(p, r). (c # p, r)) (find_first w s))"

lemma find_first_sound:
  "find_first w s = Some (p, r) \<Longrightarrow> s = p @ w @ r"
proof (induction s arbitrary: p)
  case Nil
  then show ?case by (simp split: if_splits)
next
  case (Cons c s)
  show ?case
  proof (cases "prefix w (c # s)")
    case True
    with Cons.prems have "p = []" and "r = drop (length w) (c # s)"
      by simp_all
    moreover from True obtain z where "c # s = w @ z"
      by (auto simp: prefix_def)
    ultimately show ?thesis by simp
  next
    case False
    with Cons.prems obtain p' where "find_first w s = Some (p', r)" and "p = c # p'"
      by auto
    with Cons.IH show ?thesis by simp
  qed
qed

function fence_bodies :: "string \<Rightarrow> string list" where
  "fence_bodies s =
     (case find_first opener s of
        None \<Rightarrow> []
      | Some (p, t) \<Rightarrow>
          (case find_first closer t of
             None \<Rightarrow> []
           | Some (g, r) \<Rightarrow> g # fence_bodies r))"
  by pat_completeness auto
termination
proof (relation "measure length", goal_cases)
  case 1
  show ?case by simp
next
  case (2 s x p t y g r)
  then have "s = p @ opener @ t" and "t = g @ closer @ r"
    by (simp_all add: find_first_sound)
  then show ?case by (simp add: closer_def)
qed

declare fence_bodies.simps [simp del]

text \<open>
  A segment is prose or the source of a diagram. Neither consumer stores the
  kind: both read it off the parity of the index
  (\<^verbatim>\<open>for i, part in enumerate(parts): if i % 2 == 0\<close>). \<open>tag_parts\<close> writes
  that reading down, from the index \<open>i\<close> of the first element on.
\<close>

datatype segment = Prose string | Diagram string

fun tag_parts :: "nat \<Rightarrow> string list \<Rightarrow> segment list" where
  "tag_parts i [] = []"
| "tag_parts i (part # parts) =
     (if i mod 2 = 0 then Prose part else Diagram part) # tag_parts (Suc i) parts"

definition segments :: "string \<Rightarrow> segment list" where
  "segments s = tag_parts 0 (re_split s)"

fun diagrams_of :: "segment list \<Rightarrow> string list" where
  "diagrams_of [] = []"
| "diagrams_of (Prose p # segs) = diagrams_of segs"
| "diagrams_of (Diagram d # segs) = d # diagrams_of segs"

text \<open>
  Joining the parts again: a part at an even index as it is, a part at an odd
  index between the opening marker and the closing fence.
\<close>

fun rejoin :: "nat \<Rightarrow> string list \<Rightarrow> string" where
  "rejoin i [] = []"
| "rejoin i (part # parts) =
     (if i mod 2 = 0 then part else opener @ part @ closer) @ rejoin (Suc i) parts"

subsection \<open>\<^verbatim>\<open>str.strip\<close>\<close>

text \<open>
  \<^verbatim>\<open>part.strip()\<close> removes the white space at both ends. Among the code points
  below 256, \<^verbatim>\<open>str.isspace\<close> holds for the tab, the line feed, the vertical tab,
  the form feed, the carriage return, the four separators \<^verbatim>\<open>0x1C\<close> to
  \<^verbatim>\<open>0x1F\<close>, the space, \<^verbatim>\<open>0x85\<close> and \<^verbatim>\<open>0xA0\<close>.
\<close>

definition isspace :: "char \<Rightarrow> bool" where
  "isspace c \<longleftrightarrow>
     c \<in> set [CHR 0x09, CHR 0x0A, CHR 0x0B, CHR 0x0C, CHR 0x0D, CHR 0x1C, CHR 0x1D,
              CHR 0x1E, CHR 0x1F, CHR 0x20, CHR 0x85, CHR 0xA0]"

definition strip :: "string \<Rightarrow> string" where
  "strip s = rev (dropWhile isspace (rev (dropWhile isspace s)))"

subsection \<open>The exported document\<close>

text \<open>
  An exception is the text that \<^verbatim>\<open>{e}\<close> prints. The library calls that can
  raise are parameters: \<open>md\<close> stands for \<^verbatim>\<open>MarkdownIt().render\<close>,
  \<open>st_mermaid\<close> for the diagram widget and \<open>download_button\<close> for
  \<^verbatim>\<open>st.download_button\<close>; \<open>Inl e\<close> is the exception raised.
\<close>

type_synonym exn = string

text \<open>
  The head of the document, an f-string with two holes for \<^verbatim>\<open>file_name\<close>
  (\<^verbatim>\<open>{{\<close> and \<^verbatim>\<open>}}\<close> in the source are the braces of the style sheet).
\<close>

definition html_header :: "string \<Rightarrow> string" where
  \<open>html_header file_name =
    (
      ''\<newline>'' @
      ''    <!DOCTYPE html>\<newline>'' @
      ''    <html lang="en">\<newline>'' @
      ''    <head>\<newline>'' @
      ''        <meta charset="UTF-8">\<newline>'' @
      ''        <meta name="viewport" content="width=device-width, initial-scale=1.0">\<newline>'' @
      ''        <title>Code Analysis for ''
    ) @ file_name @ (
      ''</title>\<newline>'' @
      ''        <style>\<newline>'' @
      ''            body { font-family: -apple-system, BlinkMacSystemFont, "Segoe UI", Roboto, Helvetica, Arial, sans-serif; line-height: 1.6; padding: 20px; max-width: 1000px; margin: auto; background-color: #f9f9f9; }\<newline>'' @
      ''            h1, h2, h3, h4 { color: #333; border-bottom: 1px solid #ddd; padding-bottom: 5px; }\<newline>'' @
      ''            pre { background: #2d2d2d; color: #f1f1f1; padding: 15px; border-radius: 5px; overflow-x: auto; }\<newline>'' @
      ''            code { font-family: "Courier New", Courier, monospace; }\<newline>'' @
      ''            .mermaid { text-align: center; margin-bottom: 20px; padding: 10px; border: 1px solid #ddd; border-radius: 5px; background-color: #fff; }\<newline>'' @
      ''            ul, ol { padding-left: 20px; }\<newline>'' @
      ''            blockquote { border-left: 4px solid #ddd; padding-left: 10px; color: #555; margin-left: 0; }\<newline>'' @
      ''        </style>\<newline>'' @
      ''    </head>\<newline>'' @
      ''    <body>\<newline>'' @
      ''        <h1>Code Analysis for ''
    ) @ file_name @ (
      ''</h1>\<newline>'' @
      ''    ''
    )\<close>

definition html_footer :: string where
  \<open>html_footer =
     ''\<newline>'' @
     ''        <script type="module">\<newline>'' @
     ''            import mermaid from 'https://cdn.jsdelivr.net/npm/mermaid@10/dist/mermaid.esm.min.mjs';\<newline>'' @
     ''            mermaid.initialize({ startOnLoad: true });\<newline>'' @
     ''        </script>\<newline>'' @
     ''    </body>\<newline>'' @
     ''    </html>\<newline>'' @
     ''    ''\<close>

text \<open>
  The list \<^verbatim>\<open>html_parts\<close> between head and foot has one element for each part
  of the split. The model keeps which of the two \<^verbatim>\<open>append\<close> calls wrote an
  element; \<open>emit\<close> is the string that was appended.
\<close>

datatype html_part = Rendered string | Container string

fun emit :: "html_part \<Rightarrow> string" where
  \<open>emit (Rendered h) = h\<close>
| \<open>emit (Container d) = ''<div class="mermaid">\<newline>'' @ d @ ''\<newline></div>''\<close>

fun html_body :: "(string \<Rightarrow> exn + string) \<Rightarrow> nat \<Rightarrow> string list \<Rightarrow> exn + html_part list" where
  "html_body md i [] = Inr []"
| "html_body md i (part # parts) =
     (if i mod 2 = 0 then
        (case md part of
           Inl e \<Rightarrow> Inl e
         | Inr h \<Rightarrow>
             (case html_body md (Suc i) parts of
                Inl e \<Rightarrow> Inl e
              | Inr hs \<Rightarrow> Inr (Rendered h # hs)))
      else
        (case html_body md (Suc i) parts of
           Inl e \<Rightarrow> Inl e
         | Inr hs \<Rightarrow> Inr (Container (strip part) # hs)))"

definition generate_html_report ::
  "(string \<Rightarrow> exn + string) \<Rightarrow> string \<Rightarrow> string \<Rightarrow> exn + string" where
  "generate_html_report md raw_markdown_content file_name =
     (case html_body md 0 (re_split raw_markdown_content) of
        Inl e \<Rightarrow> Inl e
      | Inr hs \<Rightarrow> Inr (html_header file_name @ concat (map emit hs) @ html_footer))"

fun containers :: "html_part list \<Rightarrow> string list" where
  "containers [] = []"
| "containers (Rendered h # hs) = containers hs"
| "containers (Container d # hs) = d # containers hs"

subsection \<open>The page\<close>

text \<open>
  What the page shows after the answer has arrived (lines 162 to 193, inside the
  \<^verbatim>\<open>try\<close> of line 143 with its handler at lines 195 to 199), as the list of
  the elements written to it, in order. The labels, the MIME type and the height
  of the widget are constants of the source and are left out.

  Line 160 takes \<^verbatim>\<open>response.content\<close> as it comes. It is a text, \<open>Str s\<close>, or
  some other value \<open>v\<close>, \<open>NonStr v\<close> (a list of content blocks, for one). On
  a value that is not a text \<^verbatim>\<open>re.split\<close> raises a \<^verbatim>\<open>TypeError\<close>;
  \<open>type_error v\<close> is the text that \<^verbatim>\<open>{e}\<close> prints for it.
\<close>

datatype 'a content = Str string | NonStr 'a

definition split_content :: "('a \<Rightarrow> exn) \<Rightarrow> 'a content \<Rightarrow> exn + string list" where
  "split_content type_error raw_output =
     (case raw_output of
        Str s \<Rightarrow> Inr (re_split s)
      | NonStr v \<Rightarrow> Inl (type_error v))"

text \<open>
  The call of line 166. Before its \<^verbatim>\<open>re.split\<close> at line 108 the function only
  builds the head, so on a value that is not a text the call raises the
  \<^verbatim>\<open>TypeError\<close> of the split; on a text it is \<open>generate_html_report\<close>.
\<close>

definition generate_html_report_of ::
  "('a \<Rightarrow> exn) \<Rightarrow> (string \<Rightarrow> exn + string) \<Rightarrow> 'a content \<Rightarrow> string \<Rightarrow> exn + string" where
  "generate_html_report_of type_error md raw_output file_name =
     (case raw_output of
        Str s \<Rightarrow> generate_html_report md s file_name
      | NonStr v \<Rightarrow> Inl (type_error v))"

text \<open>
  The elements of the page. \<open>RawText\<close> is \<^verbatim>\<open>st.text(response.content)\<close> of the
  outer handler.
\<close>

datatype 'a ui =
    Subheader
  | DownloadButton string string
  | ErrorBox string
  | Divider
  | Markdown string
  | MermaidChart string
  | CodeExpander string
  | CodeBlock string
  | RawText "'a content"

text \<open>
  The display loop (lines 182 to 193). A diagram part is drawn inside
  \<^verbatim>\<open>try\<close>: when the widget \<open>st_mermaid\<close> returns, the chart is followed by
  the expander with the source; when it raises \<open>e\<close>, the \<^verbatim>\<open>except\<close> branch
  writes the message with \<open>e\<close> and the source as a code block. The elements
  that only write to the page (\<^verbatim>\<open>st.markdown\<close>, \<^verbatim>\<open>st.code\<close>, \<^verbatim>\<open>st.error\<close>,
  \<^verbatim>\<open>st.text\<close>, the containers) return.
\<close>

fun render_parts :: "(string \<Rightarrow> exn + unit) \<Rightarrow> nat \<Rightarrow> string list \<Rightarrow> 'a ui list" where
  "render_parts st_mermaid i [] = []"
| "render_parts st_mermaid i (part # parts) =
     (if i mod 2 = 0 then [Markdown part]
      else
        (case st_mermaid (strip part) of
           Inr _ \<Rightarrow> [MermaidChart (strip part), CodeExpander (strip part)]
         | Inl e \<Rightarrow>
             [ErrorBox (''Failed to render a Mermaid diagram. Syntax may be invalid.\<newline>Error: '' @ e),
              CodeBlock (strip part)]))
     @ render_parts st_mermaid (Suc i) parts"

text \<open>
  The \<^verbatim>\<open>try\<close> of the export (lines 165 to 174): the document is built and
  then handed to the widget \<^verbatim>\<open>st.download_button\<close>, which may raise as well;
  \<open>splitext_root\<close> stands for \<^verbatim>\<open>os.path.splitext(name)[0]\<close>. Whatever is
  raised there is caught at line 173 and written as an error.
\<close>

definition export_button ::
  "('a \<Rightarrow> exn) \<Rightarrow> (string \<Rightarrow> exn + string) \<Rightarrow> (string \<Rightarrow> string \<Rightarrow> exn + unit) \<Rightarrow>
     (string \<Rightarrow> string) \<Rightarrow> 'a content \<Rightarrow> string \<Rightarrow> 'a ui list" where
  "export_button type_error md download_button splitext_root raw_output name =
     (case generate_html_report_of type_error md raw_output name of
        Inl e \<Rightarrow> [ErrorBox (''Could not generate HTML report: '' @ e)]
      | Inr html_content \<Rightarrow>
          (case download_button html_content (splitext_root name @ ''_analysis.html'') of
             Inl e \<Rightarrow> [ErrorBox (''Could not generate HTML report: '' @ e)]
           | Inr _ \<Rightarrow> [DownloadButton html_content (splitext_root name @ ''_analysis.html'')]))"

text \<open>
  The page. The split of line 180 stands outside the two inner \<^verbatim>\<open>try\<close>
  blocks: when it raises, the handler of lines 195 to 199 writes its message,
  and, \<^verbatim>\<open>response\<close> being bound by then, the heading and the raw content; the
  display loop is not entered.
\<close>

definition show_analysis ::
  "('a \<Rightarrow> exn) \<Rightarrow> (string \<Rightarrow> exn + string) \<Rightarrow> (string \<Rightarrow> string \<Rightarrow> exn + unit) \<Rightarrow>
     (string \<Rightarrow> exn + unit) \<Rightarrow> (string \<Rightarrow> string) \<Rightarrow> 'a content \<Rightarrow> string \<Rightarrow> 'a ui list" where
  "show_analysis type_error md download_button st_mermaid splitext_root raw_output name =
     [Subheader]
     @ export_button type_error md download_button splitext_root raw_output name
     @ [Divider]
     @ (case split_content type_error raw_output of
          Inr parts \<Rightarrow> render_parts st_mermaid 0 parts
        | Inl e \<Rightarrow>
            [ErrorBox (''An unexpected error occurred: '' @ e),
             ErrorBox ''Raw LLM output:'',
             RawText raw_output])"

text \<open>The diagram sources the page shows as code, one for each diagram part.\<close>

fun diagrams_shown :: "'a ui list \<Rightarrow> string list" where
  "diagrams_shown [] = []"
| "diagrams_shown (CodeExpander d # us) = d # diagrams_shown us"
| "diagrams_shown (CodeBlock d # us) = d # diagrams_shown us"
| "diagrams_shown (u # us) = diagrams_shown us"

section \<open>Facts about the matcher and the split\<close>

subsection \<open>The split against the plain description\<close>

text \<open>
  The matcher that tries every position and extends the group one character at a
  time finds what the plain scan finds: the first opening marker that has a
  closing fence behind it is the first opening marker of the text, and the group
  ends at the first closing fence behind the marker.
\<close>

lemma rejoin_Suc_Suc: "rejoin (Suc (Suc i)) parts = rejoin i parts"
  by (induction parts arbitrary: i) simp_all

lemma tag_parts_Suc_Suc: "tag_parts (Suc (Suc i)) parts = tag_parts i parts"
  by (induction parts arbitrary: i) simp_all

lemma rejoin_re_split: "rejoin 0 (re_split s) = s"
proof (induction s rule: re_split.induct)
  case (1 s)
  show ?case
  proof (cases "mermaid_pattern_search s")
    case None
    then show ?thesis by (simp add: re_split_None)
  next
    case (Some m)
    obtain p g r where m: "m = (p, g, r)" by (cases m)
    with Some have "rejoin 0 (re_split r) = r"
      using "1.IH" by simp
    moreover from Some m have "s = p @ opener @ g @ closer @ r"
      by (simp add: search_sound)
    ultimately show ?thesis
      using Some m by (simp add: re_split_Some rejoin_Suc_Suc)
  qed
qed

lemma find_first_None_iff: "find_first w t = None \<longleftrightarrow> \<not> sublist w t"
  by (induction t) (simp_all add: sublist_Cons_right)

lemma lazy_group_find_first: "lazy_group t = find_first closer t"
  by (induction t) (simp_all add: closer_def)

lemma lazy_group_None_iff: "lazy_group t = None \<longleftrightarrow> \<not> sublist closer t"
  by (simp add: lazy_group_find_first find_first_None_iff)

lemma sublist_drop_after:
  "n \<le> length y \<Longrightarrow> sublist w (drop n (y @ w @ c))"
  by (simp add: sublist_def) blast

lemma search_Some_closer_later:
  assumes "mermaid_pattern_search s = Some (p, g, r)"
  shows "sublist closer (drop (length opener - 1) s)"
proof -
  from assms have "s = (p @ opener @ g) @ closer @ r"
    by (simp add: search_sound)
  moreover have "length opener - 1 \<le> length (p @ opener @ g)"
    by simp
  ultimately show ?thesis
    using sublist_drop_after by metis
qed

lemma search_find_first:
  "mermaid_pattern_search s =
     (case find_first opener s of
        None \<Rightarrow> None
      | Some (p, t) \<Rightarrow>
          (case find_first closer t of
             None \<Rightarrow> None
           | Some (g, r) \<Rightarrow> Some (p, g, r)))"
proof (induction s)
  case Nil
  then show ?case by (simp add: opener_def)
next
  case (Cons c s)
  show ?case
  proof (cases "prefix opener (c # s)")
    case True
    let ?t = "drop (length opener) (c # s)"
    have ff: "find_first opener (c # s) = Some ([], ?t)"
      using True by simp
    have ma: "mermaid_pattern_match (c # s) = find_first closer ?t"
      using True by (simp add: mermaid_pattern_match_def lazy_group_find_first)
    show ?thesis
    proof (cases "find_first closer ?t")
      case None
      have "mermaid_pattern_search s = None"
      proof (rule ccontr)
        assume "mermaid_pattern_search s \<noteq> None"
        then obtain p g r where "mermaid_pattern_search s = Some (p, g, r)"
          by (cases "mermaid_pattern_search s") auto
        then have "sublist closer (drop (length opener - 1) s)"
          by (rule search_Some_closer_later)
        moreover have "drop (length opener - 1) s = ?t"
          by (simp add: opener_def)
        ultimately show False
          using None by (simp add: find_first_None_iff)
      qed
      with None ma ff show ?thesis by simp
    next
      case (Some m)
      with ma ff show ?thesis by (cases m) simp
    qed
  next
    case False
    then have "mermaid_pattern_match (c # s) = None"
      by (simp add: mermaid_pattern_match_def)
    with False Cons.IH show ?thesis
      by (cases "find_first opener s") (auto split: option.splits)
  qed
qed

lemma fence_bodies_None:
  assumes "mermaid_pattern_search s = None"
  shows "fence_bodies s = []"
proof (cases "find_first opener s")
  case None
  then show ?thesis by (simp add: fence_bodies.simps)
next
  case (Some a)
  obtain p t where a: "a = (p, t)" by (cases a)
  from assms Some a have "find_first closer t = None"
    by (cases "find_first closer t") (auto simp: search_find_first)
  with Some a show ?thesis by (simp add: fence_bodies.simps)
qed

lemma fence_bodies_Some:
  assumes "mermaid_pattern_search s = Some (p, g, r)"
  shows "fence_bodies s = g # fence_bodies r"
proof (cases "find_first opener s")
  case None
  with assms show ?thesis by (simp add: search_find_first)
next
  case (Some a)
  obtain p' t where a: "a = (p', t)" by (cases a)
  from assms Some a have "find_first closer t = Some (g, r)"
    by (cases "find_first closer t") (auto simp: search_find_first)
  with Some a show ?thesis by (simp add: fence_bodies.simps [of s])
qed

lemma diagrams_re_split: "diagrams_of (tag_parts 0 (re_split s)) = fence_bodies s"
proof (induction s rule: re_split.induct)
  case (1 s)
  show ?case
  proof (cases "mermaid_pattern_search s")
    case None
    then show ?thesis by (simp add: re_split_None fence_bodies_None)
  next
    case (Some m)
    obtain p g r where m: "m = (p, g, r)" by (cases m)
    with Some "1.IH" show ?thesis
      by (simp add: re_split_Some fence_bodies_Some tag_parts_Suc_Suc)
  qed
qed

lemma length_re_split: "length (re_split s) = 2 * length (fence_bodies s) + 1"
proof (induction s rule: re_split.induct)
  case (1 s)
  show ?case
  proof (cases "mermaid_pattern_search s")
    case None
    then show ?thesis by (simp add: re_split_None fence_bodies_None)
  next
    case (Some m)
    obtain p g r where m: "m = (p, g, r)" by (cases m)
    with Some "1.IH" show ?thesis
      by (simp add: re_split_Some fence_bodies_Some)
  qed
qed

subsection \<open>Neither delimiter overlaps itself\<close>

text \<open>
  The opening marker ends in its only newline and the closing fence starts with
  its only newline, so an occurrence of a delimiter cannot begin inside another
  occurrence of the same delimiter.
\<close>

lemma closer_straddle:
  assumes "prefix closer (u @ closer @ r)"
  shows "u = [] \<or> prefix closer u"
proof -
  from assms consider "prefix closer u" | us where "closer = u @ us" "prefix us (closer @ r)"
    by (auto simp: prefix_append)
  then show ?thesis
  proof cases
    case 1
    then show ?thesis by simp
  next
    case 2
    from 2(1) have "prefix u closer"
      by (metis prefixI)
    then show ?thesis
      using 2 by (auto simp: closer_def prefix_Cons)
  qed
qed

lemma opener_straddle:
  assumes "prefix opener (u @ opener @ r)"
  shows "u = [] \<or> prefix opener u"
proof -
  from assms consider "prefix opener u" | us where "opener = u @ us" "prefix us (opener @ r)"
    by (auto simp: prefix_append)
  then show ?thesis
  proof cases
    case 1
    then show ?thesis by simp
  next
    case 2
    from 2(1) have "prefix u opener"
      by (metis prefixI)
    then show ?thesis
      using 2 by (auto simp: opener_def prefix_Cons)
  qed
qed

subsection \<open>The split of a text in two pieces\<close>

text \<open>
  A match found in a text is found again when more text follows. When the last
  prose part of the split of \<open>pre\<close> holds no opening marker, the split of
  \<open>pre\<close> followed by a marker and a text \<open>t\<close> is decided by \<open>t\<close> alone:
  either \<open>t\<close> has a closing fence, and the marker opens a fence, or the marker
  and \<open>t\<close> stay in the last prose part.
\<close>

lemma prefix_append_long:
  "length w \<le> length x \<Longrightarrow> prefix w (x @ y) \<longleftrightarrow> prefix w x"
  by (auto simp: prefix_append)

lemma find_first_append:
  "find_first w x = Some (p, t) \<Longrightarrow> find_first w (x @ y) = Some (p, t @ y)"
proof (induction x arbitrary: p)
  case Nil
  then show ?case by (cases y) (simp_all split: if_splits)
next
  case (Cons c x)
  show ?case
  proof (cases "prefix w (c # x)")
    case True
    then have "prefix w ((c # x) @ y)"
      by (rule prefix_prefix)
    moreover from True have "length w \<le> length (c # x)"
      by (rule prefix_length_le)
    then have "drop (length w) ((c # x) @ y) = drop (length w) (c # x) @ y"
      by (simp only: drop_append) simp
    ultimately show ?thesis
      using True Cons.prems by simp
  next
    case False
    with Cons.prems obtain p' where p': "find_first w x = Some (p', t)" "p = c # p'"
      by auto
    then have "x = p' @ w @ t"
      by (simp add: find_first_sound)
    then have "length w \<le> length (c # x)"
      by simp
    with False have "\<not> prefix w ((c # x) @ y)"
      using prefix_append_long [of w "c # x" y] by blast
    with p' Cons.IH show ?thesis by simp
  qed
qed

lemma find_first_opener:
  "\<not> sublist opener p \<Longrightarrow> find_first opener (p @ opener @ t) = Some (p, t)"
proof (induction p)
  case Nil
  then show ?case by (simp add: opener_def)
next
  case (Cons c p)
  then have n: "\<not> prefix opener (c # p)" and "\<not> sublist opener p"
    by (simp_all add: sublist_Cons_right)
  with Cons.IH have "find_first opener (p @ opener @ t) = Some (p, t)"
    by simp
  moreover have "\<not> prefix opener ((c # p) @ opener @ t)"
    using n opener_straddle [of "c # p" t] by auto
  ultimately show ?case by simp
qed

lemma find_first_closer:
  "\<not> sublist closer g \<Longrightarrow> find_first closer (g @ closer @ r) = Some (g, r)"
proof (induction g)
  case Nil
  then show ?case by (simp add: closer_def)
next
  case (Cons c g)
  then have n: "\<not> prefix closer (c # g)" and "\<not> sublist closer g"
    by (simp_all add: sublist_Cons_right)
  with Cons.IH have "find_first closer (g @ closer @ r) = Some (g, r)"
    by simp
  moreover have "\<not> prefix closer ((c # g) @ closer @ r)"
    using n closer_straddle [of "c # g" r] by auto
  ultimately show ?case by simp
qed

lemma search_after_prose:
  assumes "\<not> sublist opener p"
  shows "mermaid_pattern_search (p @ opener @ t) = map_option (\<lambda>(g, r). (p, g, r)) (lazy_group t)"
  using assms
  by (cases "find_first closer t")
    (auto simp: search_find_first find_first_opener lazy_group_find_first)

lemma search_append:
  assumes "mermaid_pattern_search x = Some (p, g, r)"
  shows "mermaid_pattern_search (x @ y) = Some (p, g, r @ y)"
proof -
  from assms obtain t where t: "find_first opener x = Some (p, t)" "find_first closer t = Some (g, r)"
    by (auto simp: search_find_first split: option.splits)
  then have "find_first opener (x @ y) = Some (p, t @ y)" "find_first closer (t @ y) = Some (g, r @ y)"
    by (simp_all add: find_first_append)
  then show ?thesis
    by (simp add: search_find_first)
qed

lemma search_fence:
  "mermaid_pattern_search (a @ opener @ b @ closer @ c) \<noteq> None"
proof (induction a)
  case Nil
  have "sublist closer (b @ closer @ c)"
    by (auto simp: sublist_def)
  then have "mermaid_pattern_match (opener @ b @ closer @ c) \<noteq> None"
    by (simp add: mermaid_pattern_match_def lazy_group_None_iff)
  moreover obtain x xs where "opener @ b @ closer @ c = x # xs"
    by (auto simp: opener_def)
  ultimately show ?case by auto
next
  case (Cons x a)
  then show ?case by (auto split: option.splits)
qed

lemma search_None_iff:
  "mermaid_pattern_search s = None \<longleftrightarrow> \<not> (\<exists>a b c. s = a @ opener @ b @ closer @ c)"
proof
  assume none: "mermaid_pattern_search s = None"
  show "\<not> (\<exists>a b c. s = a @ opener @ b @ closer @ c)"
  proof
    assume "\<exists>a b c. s = a @ opener @ b @ closer @ c"
    then obtain a b c where "s = a @ opener @ b @ closer @ c"
      by blast
    with none search_fence [of a b c] show False
      by simp
  qed
next
  assume n: "\<not> (\<exists>a b c. s = a @ opener @ b @ closer @ c)"
  show "mermaid_pattern_search s = None"
  proof (cases "mermaid_pattern_search s")
    case None
    then show ?thesis .
  next
    case (Some m)
    obtain p g r where "m = (p, g, r)" by (cases m)
    with Some have "s = p @ opener @ g @ closer @ r"
      by (simp add: search_sound)
    with n show ?thesis by blast
  qed
qed

lemma re_split_not_Nil: "re_split s \<noteq> []"
  by (cases "mermaid_pattern_search s") (auto simp: re_split_None re_split_Some)

lemma re_split_after_prose:
  assumes "\<not> sublist opener (last (re_split pre))"
  shows "re_split (pre @ opener @ t) =
           butlast (re_split pre) @
             (case lazy_group t of
                None \<Rightarrow> [last (re_split pre) @ opener @ t]
              | Some (g, r) \<Rightarrow> last (re_split pre) # g # re_split r)"
  using assms
proof (induction pre rule: re_split.induct)
  case (1 s)
  show ?case
  proof (cases "mermaid_pattern_search s")
    case None
    then have rs: "re_split s = [s]"
      by (rule re_split_None)
    with "1.prems" have "\<not> sublist opener s" by simp
    then have "mermaid_pattern_search (s @ opener @ t) = map_option (\<lambda>(g, r). (s, g, r)) (lazy_group t)"
      by (rule search_after_prose)
    then show ?thesis
      using rs by (cases "lazy_group t") (auto simp: re_split_None re_split_Some)
  next
    case (Some m)
    obtain p g r where m: "m = (p, g, r)" by (cases m)
    with Some have rs: "re_split s = p # g # re_split r"
      by (simp add: re_split_Some)
    with "1.prems" have "\<not> sublist opener (last (re_split r))"
      by (simp add: re_split_not_Nil)
    with Some m "1.IH" have
      "re_split (r @ opener @ t) =
         butlast (re_split r) @
           (case lazy_group t of
              None \<Rightarrow> [last (re_split r) @ opener @ t]
            | Some (g, r') \<Rightarrow> last (re_split r) # g # re_split r')"
      by simp
    moreover from Some m have "mermaid_pattern_search (s @ opener @ t) = Some (p, g, r @ opener @ t)"
      by (simp add: search_append)
    ultimately show ?thesis
      using rs by (cases "lazy_group t") (auto simp: re_split_Some re_split_not_Nil)
  qed
qed

subsection \<open>Reading the parts by parity\<close>

text \<open>
  \<open>run_split\<close> are the equations that evaluate the split of a given text.
\<close>

lemmas run_split = re_split.simps mermaid_pattern_match_def opener_def closer_def

lemma tag_parts_nth:
  "i < length parts \<Longrightarrow>
     tag_parts k parts ! i = (if even (k + i) then Prose (parts ! i) else Diagram (parts ! i))"
proof (induction parts arbitrary: k i)
  case Nil
  then show ?case by simp
next
  case (Cons part parts)
  show ?case
  proof (cases i)
    case 0
    then show ?thesis by (simp add: even_iff_mod_2_eq_zero)
  next
    case (Suc j)
    with Cons.prems have "j < length parts" by simp
    then have "tag_parts (Suc k) parts ! j =
        (if even (Suc k + j) then Prose (parts ! j) else Diagram (parts ! j))"
      by (rule Cons.IH)
    with Suc show ?thesis by simp
  qed
qed

lemma length_tag_parts: "length (tag_parts k parts) = length parts"
  by (induction parts arbitrary: k) simp_all

lemma example_split:
  "re_split ''Intro text\<newline>```mermaid\<newline>A-->B\<newline>```\<newline>Outro text'' =
     [''Intro text\<newline>'', ''A-->B'', ''\<newline>Outro text'']"
  by (simp add: run_split)


subsection \<open>The two consumers\<close>

text \<open>
  Both loops hand the parts at odd indexes, stripped, to their diagram branch:
  the export writes a container for each, the page shows the source of each.
\<close>

lemma diagrams_shown_append:
  "diagrams_shown (us @ vs) = diagrams_shown us @ diagrams_shown vs"
  by (induction us rule: diagrams_shown.induct) simp_all

lemma export_button_shown:
  "diagrams_shown (export_button type_error md download_button splitext_root raw_output name) = []"
  by (simp add: export_button_def split: sum.splits)

lemma render_parts_shown:
  "diagrams_shown (render_parts st_mermaid i parts) = map strip (diagrams_of (tag_parts i parts))"
  by (induction parts arbitrary: i) (simp_all add: diagrams_shown_append split: sum.splits)

lemma html_body_containers:
  "html_body md i parts = Inr hs \<Longrightarrow> containers hs = map strip (diagrams_of (tag_parts i parts))"
proof (induction parts arbitrary: i hs)
  case Nil
  then show ?case by auto
next
  case (Cons part parts)
  from Cons.prems obtain hs' where hs': "html_body md (Suc i) parts = Inr hs'"
    by (auto split: if_splits sum.splits)
  then have "containers hs' = map strip (diagrams_of (tag_parts (Suc i) parts))"
    by (rule Cons.IH)
  with Cons.prems hs' show ?case
    by (auto split: if_splits sum.splits)
qed

lemma strip_example: "strip ''A-->B'' = ''A-->B''"
  by (simp add: strip_def isspace_def)

lemmas run_sublist = sublist_Cons_right prefix_Cons opener_def closer_def


lemma render_parts_covers:
  "i < length parts \<Longrightarrow>
     (if even (k + i) then
        Markdown (parts ! i) \<in> set (render_parts st_mermaid k parts :: 'a ui list)
      else
        strip (parts ! i) \<in> set (diagrams_shown (render_parts st_mermaid k parts :: 'a ui list)))"
proof (induction parts arbitrary: k i)
  case Nil
  then show ?case by simp
next
  case (Cons part parts)
  show ?case
  proof (cases i)
    case 0
    then show ?thesis
      by (auto simp: even_iff_mod_2_eq_zero diagrams_shown_append split: sum.splits)
  next
    case (Suc j)
    with Cons.prems have "j < length parts" by simp
    then have "if even (Suc k + j) then
        Markdown (parts ! j) \<in> set (render_parts st_mermaid (Suc k) parts :: 'a ui list)
      else
        strip (parts ! j) \<in> set (diagrams_shown (render_parts st_mermaid (Suc k) parts :: 'a ui list))"
      by (rule Cons.IH)
    with Suc show ?thesis
      by (auto simp: diagrams_shown_append split: if_splits)
  qed
qed

lemma render_parts_no_download:
  "DownloadButton h f \<notin> set (render_parts st_mermaid k parts)"
  by (induction parts arbitrary: k) (auto split: sum.splits)

lemma last_tag_parts:
  assumes "parts \<noteq> []"
  shows "last (tag_parts k parts) =
           (if even (k + (length parts - 1)) then Prose (last parts) else Diagram (last parts))"
proof -
  from assms have "tag_parts k parts \<noteq> []"
    by (cases parts) simp_all
  then have "last (tag_parts k parts) = tag_parts k parts ! (length parts - 1)"
    by (simp add: last_conv_nth length_tag_parts)
  with assms show ?thesis
    by (simp add: tag_parts_nth last_conv_nth)
qed


section \<open>The properties of the specification\<close>

text \<open>
  Claim C1 (segmentation parity). For every text \<open>s\<close>, the element of the
  split at an even index is read as prose and the element at an odd index as a
  diagram; the diagram segments are, in order, the interiors of the fence pairs
  that the plain scan finds in \<open>s\<close>, so there are as many of them as there
  are fence pairs.
\<close>

theorem segmentation_parity:
  "(\<forall>i<length (re_split s).
       segments s ! i = (if even i then Prose (re_split s ! i) else Diagram (re_split s ! i)))
   \<and> length (segments s) = length (re_split s)
   \<and> diagrams_of (segments s) = fence_bodies s
   \<and> length (diagrams_of (segments s)) = length (fence_bodies s)"
  by (simp add: segments_def tag_parts_nth length_tag_parts diagrams_re_split)

theorem segmentation_parity_witness:
  "1 < length (re_split ''Intro text\<newline>```mermaid\<newline>A-->B\<newline>```\<newline>Outro text'')
   \<and> segments ''Intro text\<newline>```mermaid\<newline>A-->B\<newline>```\<newline>Outro text'' ! 1 = Diagram ''A-->B''
   \<and> fence_bodies ''Intro text\<newline>```mermaid\<newline>A-->B\<newline>```\<newline>Outro text'' = [''A-->B'']"
proof -
  let ?ex = "''Intro text\<newline>```mermaid\<newline>A-->B\<newline>```\<newline>Outro text''"
  note par = segmentation_parity [of ?ex]
  have len: "1 < length (re_split ?ex)"
    by (simp add: example_split)
  with par have "segments ?ex ! 1 = Diagram (re_split ?ex ! 1)"
    by simp
  then have one: "segments ?ex ! 1 = Diagram ''A-->B''"
    by (simp add: example_split)
  from par have "fence_bodies ?ex = diagrams_of (segments ?ex)"
    by simp
  also have "\<dots> = [''A-->B'']"
    by (simp add: segments_def example_split)
  finally show ?thesis
    using len one by simp
qed

text \<open>
  Claim C2 (round trip). Joining the parts of the split again, the parts at even
  indexes as they are and each part at an odd index between the opening marker
  and the closing fence, gives the text that was split. This holds for every
  text, so also for the texts whose fences are all well formed.
\<close>

theorem round_trip: "rejoin 0 (re_split s) = s"
  by (rule rejoin_re_split)

text \<open>
  Claim C3 (consistency between the views). The export and the page cut the
  answer with the same pattern (lines 81 and 179 have the same pattern text) and
  strip each diagram part in the same way. When the export returns a document,
  the diagram containers written into it are, in number and in order, the
  diagram sources the page shows, whether the widget draws them or fails; both
  are the stripped interiors of the fence pairs of the answer.
\<close>

theorem views_consistent:
  assumes "generate_html_report md raw name = Inr doc"
  shows "\<exists>hs. html_body md 0 (re_split raw) = Inr hs
           \<and> doc = html_header name @ concat (map emit hs) @ html_footer
           \<and> containers hs =
               diagrams_shown
                 (show_analysis type_error md download_button st_mermaid splitext_root (Str raw) name)
           \<and> containers hs = map strip (fence_bodies raw)"
proof -
  from assms obtain hs where hs: "html_body md 0 (re_split raw) = Inr hs"
    and doc: "doc = html_header name @ concat (map emit hs) @ html_footer"
    by (auto simp: generate_html_report_def split: sum.splits)
  from hs have c: "containers hs = map strip (fence_bodies raw)"
    by (simp add: html_body_containers diagrams_re_split)
  have "diagrams_shown
          (show_analysis type_error md download_button st_mermaid splitext_root (Str raw) name)
          = diagrams_shown (render_parts st_mermaid 0 (re_split raw) :: 'a ui list)"
    by (simp add: show_analysis_def split_content_def diagrams_shown_append export_button_shown)
  also have "\<dots> = map strip (fence_bodies raw)"
    by (simp add: render_parts_shown diagrams_re_split)
  finally show ?thesis
    using hs doc c by simp
qed

theorem views_consistent_witness:
  \<open>generate_html_report (\<lambda>t. Inr t) ''Intro text\<newline>```mermaid\<newline>A-->B\<newline>```\<newline>Outro text'' ''app.py''
     = Inr (html_header ''app.py'' @ ''Intro text\<newline><div class="mermaid">\<newline>A-->B\<newline></div>\<newline>Outro text'' @ html_footer)
   \<and> diagrams_shown
        (show_analysis (\<lambda>v :: unit. ''TypeError'') (\<lambda>t. Inr t) (\<lambda>h f. Inr ())
           (\<lambda>d. Inl ''Parse error'') (\<lambda>n. n)
           (Str ''Intro text\<newline>```mermaid\<newline>A-->B\<newline>```\<newline>Outro text'') ''app.py'')
       = [''A-->B'']\<close>
proof -
  let ?ex = "''Intro text\<newline>```mermaid\<newline>A-->B\<newline>```\<newline>Outro text''"
  let ?md = "\<lambda>t::string. Inr t :: exn + string"
  let ?page = "show_analysis (\<lambda>v :: unit. ''TypeError'') ?md (\<lambda>h f. Inr ())
      (\<lambda>d. Inl ''Parse error'') (\<lambda>n. n) (Str ?ex) ''app.py''"
  have g: \<open>generate_html_report ?md ?ex ''app.py''
     = Inr (html_header ''app.py'' @ ''Intro text\<newline><div class="mermaid">\<newline>A-->B\<newline></div>\<newline>Outro text'' @ html_footer)\<close>
    by (simp add: generate_html_report_def example_split strip_example)
  from views_consistent [OF g, of "\<lambda>v :: unit. ''TypeError''" "\<lambda>h f. Inr ()"
      "\<lambda>d. Inl ''Parse error''" "\<lambda>n. n"]
  obtain hs where "html_body ?md 0 (re_split ?ex) = Inr hs"
    and "containers hs = diagrams_shown ?page"
    by blast
  then have "diagrams_shown ?page = [''A-->B'']"
    by (auto simp: example_split strip_example)
  with g show ?thesis by simp
qed

text \<open>
  Claim C4 (the example of the specification). The text
  \<^verbatim>\<open>Intro text\n```mermaid\nA-->B\n```\nOutro text\<close> is split in the three parts
  \<^verbatim>\<open>Intro text\n\<close>, \<^verbatim>\<open>A-->B\<close> and \<^verbatim>\<open>\nOutro text\<close>, read as prose, diagram,
  prose. When the Markdown renderer returns \<open>a\<close> and \<open>b\<close> for the two
  prose parts, the body of the exported document has three elements, exactly one
  of them a diagram container, and the container holds \<^verbatim>\<open>A-->B\<close>.
\<close>

theorem example_scenario:
  \<open>re_split ''Intro text\<newline>```mermaid\<newline>A-->B\<newline>```\<newline>Outro text''
     = [''Intro text\<newline>'', ''A-->B'', ''\<newline>Outro text'']
   \<and> segments ''Intro text\<newline>```mermaid\<newline>A-->B\<newline>```\<newline>Outro text''
     = [Prose ''Intro text\<newline>'', Diagram ''A-->B'', Prose ''\<newline>Outro text'']
   \<and> (md ''Intro text\<newline>'' = Inr a \<longrightarrow> md ''\<newline>Outro text'' = Inr b \<longrightarrow>
        html_body md 0 (re_split ''Intro text\<newline>```mermaid\<newline>A-->B\<newline>```\<newline>Outro text'')
          = Inr [Rendered a, Container ''A-->B'', Rendered b]
        \<and> containers [Rendered a, Container ''A-->B'', Rendered b] = [''A-->B'']
        \<and> generate_html_report md ''Intro text\<newline>```mermaid\<newline>A-->B\<newline>```\<newline>Outro text'' name
          = Inr (html_header name @ a @ ''<div class="mermaid">\<newline>A-->B\<newline></div>'' @ b @ html_footer))\<close>
  by (simp add: generate_html_report_def segments_def example_split strip_example)

theorem example_scenario_witness:
  \<open>generate_html_report (\<lambda>t. Inr (''<p>'' @ t @ ''</p>''))
      ''Intro text\<newline>```mermaid\<newline>A-->B\<newline>```\<newline>Outro text'' ''app.py''
     = Inr (html_header ''app.py''
            @ ''<p>Intro text\<newline></p><div class="mermaid">\<newline>A-->B\<newline></div><p>\<newline>Outro text</p>''
            @ html_footer)\<close>
  using example_scenario [of "\<lambda>t. Inr (''<p>'' @ t @ ''</p>'')" "''<p>Intro text\<newline></p>''"
      "''<p>\<newline>Outro text</p>''" "''app.py''"]
  by simp

text \<open>
  Claim C5 (an unterminated fence at the end), as it is stated, fails: in
  \<^verbatim>\<open>```mermaid\nA\n```mermaid\nB\<close> the second opening marker is never closed, but
  its three backquotes, after the newline before them, close the first fence.
  The split is the empty prose, the diagram \<^verbatim>\<open>A\<close> and the prose
  \<^verbatim>\<open>mermaid\nB\<close>: the last prose part does not hold the text from the second
  marker on.
\<close>

theorem unterminated_fence_counterexample:
  "\<not> sublist closer ''B''
   \<and> re_split (''```mermaid\<newline>A\<newline>'' @ opener @ ''B'') = ['''', ''A'', ''mermaid\<newline>B'']
   \<and> \<not> suffix (opener @ ''B'') (last (re_split (''```mermaid\<newline>A\<newline>'' @ opener @ ''B'')))"
proof -
  have s: "re_split (''```mermaid\<newline>A\<newline>'' @ opener @ ''B'') = ['''', ''A'', ''mermaid\<newline>B'']"
    by (simp add: run_split)
  have "\<not> suffix (opener @ ''B'') ''mermaid\<newline>B''"
    by (auto simp: opener_def dest: suffix_length_le)
  moreover have "\<not> sublist closer ''B''"
    by (simp add: run_sublist)
  ultimately show ?thesis
    using s by simp
qed

text \<open>
  Claim C5, amended. Let a text end in an opening marker and a tail with no
  closing fence in it, and let the text before that marker leave no fence open:
  split on its own, its last prose part contains no opening marker. Then the
  marker is not matched: the split is that of the text before, with the marker
  and the whole tail added to the last prose part.
\<close>

theorem unterminated_fence_is_prose:
  assumes "\<not> sublist opener (last (re_split pre))" and "\<not> sublist closer tail"
  shows "re_split (pre @ opener @ tail) = butlast (re_split pre) @ [last (re_split pre) @ opener @ tail]
         \<and> suffix (opener @ tail) (last (re_split (pre @ opener @ tail)))"
proof -
  from assms(2) have "lazy_group tail = None"
    by (simp add: lazy_group_None_iff)
  with assms(1) have "re_split (pre @ opener @ tail) =
      butlast (re_split pre) @ [last (re_split pre) @ opener @ tail]"
    by (simp add: re_split_after_prose)
  then show ?thesis
    by (simp add: suffix_def)
qed

theorem unterminated_fence_is_prose_witness:
  "\<not> sublist opener (last (re_split ''Intro\<newline>```mermaid\<newline>A\<newline>```\<newline>More\<newline>''))
   \<and> \<not> sublist closer ''B-->C''
   \<and> re_split (''Intro\<newline>```mermaid\<newline>A\<newline>```\<newline>More\<newline>'' @ opener @ ''B-->C'')
       = [''Intro\<newline>'', ''A'', ''\<newline>More\<newline>```mermaid\<newline>B-->C'']"
proof -
  have p: "re_split ''Intro\<newline>```mermaid\<newline>A\<newline>```\<newline>More\<newline>'' = [''Intro\<newline>'', ''A'', ''\<newline>More\<newline>'']"
    by (simp add: run_split)
  have h1: "\<not> sublist opener (last (re_split ''Intro\<newline>```mermaid\<newline>A\<newline>```\<newline>More\<newline>''))"
    by (simp add: p) (simp add: run_sublist)
  have h2: "\<not> sublist closer ''B-->C''"
    by (simp add: run_sublist)
  from unterminated_fence_is_prose [OF h1 h2] show ?thesis
    using h1 h2 by (simp add: p opener_def)
qed

text \<open>
  Claim C6 (adjacent fences), as it is stated, fails when an earlier fence is
  left open: in \<^verbatim>\<open>```mermaid\nX\n\<close> followed by the two adjacent fences of
  \<^verbatim>\<open>A\<close> and \<^verbatim>\<open>B\<close>, the backquotes of the second marker close the first
  fence, and the prose part between the two diagrams \<^verbatim>\<open>X\<close> and \<^verbatim>\<open>B\<close> is
  not empty.
\<close>

theorem adjacent_fences_counterexample:
  "\<not> sublist closer ''A'' \<and> \<not> sublist closer ''B''
   \<and> re_split (''```mermaid\<newline>X\<newline>'' @ (opener @ ''A'' @ closer) @ (opener @ ''B'' @ closer))
       = ['''', ''X'', ''mermaid\<newline>A\<newline>```'', ''B'', '''']"
proof -
  have "re_split (''```mermaid\<newline>X\<newline>'' @ (opener @ ''A'' @ closer) @ (opener @ ''B'' @ closer))
       = ['''', ''X'', ''mermaid\<newline>A\<newline>```'', ''B'', '''']"
    by (simp add: run_split)
  moreover have "\<not> sublist closer ''A''" "\<not> sublist closer ''B''"
    by (simp_all add: run_sublist)
  ultimately show ?thesis by simp
qed

text \<open>
  Claim C6, amended. Two fences whose interiors hold no closing fence, the second
  directly behind the first, after a text that leaves no fence open (split on its
  own, its last prose part contains no opening marker): the split has the empty
  prose part between the two diagram parts, and goes on with the split of the
  text behind the second fence.
\<close>

theorem adjacent_fences_empty_prose:
  assumes "\<not> sublist opener (last (re_split pre))"
    and "\<not> sublist closer b1" and "\<not> sublist closer b2"
  shows "re_split (pre @ (opener @ b1 @ closer) @ (opener @ b2 @ closer) @ post)
           = butlast (re_split pre) @ [last (re_split pre), b1, [], b2] @ re_split post"
proof -
  from assms(2) have "lazy_group (b1 @ closer @ opener @ b2 @ closer @ post)
      = Some (b1, opener @ b2 @ closer @ post)"
    by (simp add: lazy_group_find_first find_first_closer)
  with assms(1) have "re_split (pre @ opener @ b1 @ closer @ opener @ b2 @ closer @ post)
      = butlast (re_split pre) @ last (re_split pre) # b1 # re_split (opener @ b2 @ closer @ post)"
    by (simp add: re_split_after_prose)
  moreover have "re_split (opener @ b2 @ closer @ post) = [[], b2] @ re_split post"
  proof -
    have e: "re_split [] = [[]]"
      by (simp add: re_split_None)
    then have n: "\<not> sublist opener (last (re_split []))"
      by (simp add: opener_def)
    from assms(3) have "lazy_group (b2 @ closer @ post) = Some (b2, post)"
      by (simp add: lazy_group_find_first find_first_closer)
    with re_split_after_prose [OF n, of "b2 @ closer @ post"] e show ?thesis
      by simp
  qed
  ultimately show ?thesis by simp
qed

theorem adjacent_fences_empty_prose_witness:
  "\<not> sublist opener (last (re_split ''Intro\<newline>''))
   \<and> \<not> sublist closer ''A-->B'' \<and> \<not> sublist closer ''C-->D''
   \<and> re_split (''Intro\<newline>'' @ (opener @ ''A-->B'' @ closer) @ (opener @ ''C-->D'' @ closer) @ ''\<newline>End'')
       = [''Intro\<newline>'', ''A-->B'', '''', ''C-->D'', ''\<newline>End'']"
proof -
  have p: "re_split ''Intro\<newline>'' = [''Intro\<newline>'']"
    by (simp add: run_split)
  have q: "re_split ''\<newline>End'' = [''\<newline>End'']"
    by (simp add: run_split)
  have h1: "\<not> sublist opener (last (re_split ''Intro\<newline>''))"
    by (simp add: p) (simp add: run_sublist)
  have h2: "\<not> sublist closer ''A-->B''" and h3: "\<not> sublist closer ''C-->D''"
    by (simp_all add: run_sublist)
  from adjacent_fences_empty_prose [OF h1 h2 h3, of "''\<newline>End''"] show ?thesis
    using h1 h2 h3 by (simp add: p q)
qed

text \<open>
  Claim C7 (no fence). A text in which no opening marker is followed, anywhere
  later, by a closing fence has no fence pair; its split is the one prose part
  that is the whole text.
\<close>

theorem no_fence_single_segment:
  assumes "\<not> (\<exists>a b c. s = a @ opener @ b @ closer @ c)"
  shows "re_split s = [s] \<and> segments s = [Prose s]"
proof -
  from assms have "mermaid_pattern_search s = None"
    by (simp add: search_None_iff)
  then have "re_split s = [s]"
    by (rule re_split_None)
  then show ?thesis
    by (simp add: segments_def)
qed

theorem no_fence_single_segment_witness:
  "\<not> (\<exists>a b c. ''Intro\<newline>```mermaid\<newline>A-->B'' = a @ opener @ b @ closer @ c)
   \<and> re_split ''Intro\<newline>```mermaid\<newline>A-->B'' = [''Intro\<newline>```mermaid\<newline>A-->B'']"
proof -
  have "mermaid_pattern_search ''Intro\<newline>```mermaid\<newline>A-->B'' = None"
    by (simp add: mermaid_pattern_match_def opener_def closer_def)
  then have h: "\<not> (\<exists>a b c. ''Intro\<newline>```mermaid\<newline>A-->B'' = a @ opener @ b @ closer @ c)"
    by (rule search_None_iff [THEN iffD1])
  from no_fence_single_segment [OF h] show ?thesis
    using h by simp
qed

text \<open>
  Claim C8 (a failing export is isolated), as it is stated, fails when the
  content of the answer is not a text: the export raises the \<^verbatim>\<open>TypeError\<close> of
  its split and the error is written where the download button would be, but the
  split of line 180 raises the same error outside the inner \<^verbatim>\<open>try\<close>, and
  the outer handler writes its message and the raw content. No part is shown.
\<close>

theorem export_failure_counterexample:
  "generate_html_report_of (\<lambda>v :: string list. ''expected string or bytes-like object'')
       (\<lambda>t. Inr t) (NonStr [''Intro text'', ''A-->B'']) ''app.py''
     = Inl ''expected string or bytes-like object''
   \<and> show_analysis (\<lambda>v :: string list. ''expected string or bytes-like object'')
        (\<lambda>t. Inr t) (\<lambda>h f. Inr ()) (\<lambda>d. Inr ()) (\<lambda>n. n)
        (NonStr [''Intro text'', ''A-->B'']) ''app.py''
     = [Subheader,
        ErrorBox ''Could not generate HTML report: expected string or bytes-like object'',
        Divider,
        ErrorBox ''An unexpected error occurred: expected string or bytes-like object'',
        ErrorBox ''Raw LLM output:'',
        RawText (NonStr [''Intro text'', ''A-->B''])]"
  by (simp add: show_analysis_def export_button_def generate_html_report_of_def split_content_def)

text \<open>
  Claim C8, amended. When the content of the answer is a text and
  \<^verbatim>\<open>generate_html_report\<close> raises \<open>e\<close> on it, the page shows the error message
  with \<open>e\<close> where the download button would be and no download button at all;
  after the divider the display loop runs as always, over every part of the same
  split: each part at an even index is shown as Markdown, and the stripped source
  of each part at an odd index is shown as code. When the content is not a text,
  the page shows the error of the export, the divider, and then the message of
  the outer handler with the raw content.
\<close>

theorem export_failure_isolated:
  assumes "generate_html_report md raw name = Inl e"
  shows "show_analysis type_error md download_button st_mermaid splitext_root (Str raw) name =
           [Subheader, ErrorBox (''Could not generate HTML report: '' @ e), Divider]
           @ render_parts st_mermaid 0 (re_split raw)
         \<and> DownloadButton h f \<notin>
             set (show_analysis type_error md download_button st_mermaid splitext_root (Str raw) name)
         \<and> (\<forall>i<length (re_split raw).
              if even i then
                Markdown (re_split raw ! i) \<in>
                  set (show_analysis type_error md download_button st_mermaid splitext_root (Str raw) name)
              else
                strip (re_split raw ! i) \<in>
                  set (diagrams_shown
                    (show_analysis type_error md download_button st_mermaid splitext_root (Str raw) name)))
         \<and> show_analysis type_error md download_button st_mermaid splitext_root (NonStr v) name =
             [Subheader, ErrorBox (''Could not generate HTML report: '' @ type_error v), Divider,
              ErrorBox (''An unexpected error occurred: '' @ type_error v),
              ErrorBox ''Raw LLM output:'', RawText (NonStr v)]"
proof -
  let ?page = "show_analysis type_error md download_button st_mermaid splitext_root (Str raw) name"
  let ?loop = "render_parts st_mermaid 0 (re_split raw) :: 'a ui list"
  from assms have eq: "?page =
      [Subheader, ErrorBox (''Could not generate HTML report: '' @ e), Divider] @ ?loop"
    by (simp add: show_analysis_def export_button_def generate_html_report_of_def
        split_content_def)
  then have nb: "DownloadButton h f \<notin> set ?page"
    by (simp add: render_parts_no_download)
  have cov: "\<forall>i<length (re_split raw).
      if even i then Markdown (re_split raw ! i) \<in> set ?loop
      else strip (re_split raw ! i) \<in> set (diagrams_shown ?loop)"
    using render_parts_covers [of _ "re_split raw" 0 st_mermaid, where ?'a = 'a] by simp
  have "\<forall>i<length (re_split raw).
      if even i then Markdown (re_split raw ! i) \<in> set ?page
      else strip (re_split raw ! i) \<in> set (diagrams_shown ?page)"
  proof (intro allI impI)
    fix i
    assume "i < length (re_split raw)"
    with cov have "if even i then Markdown (re_split raw ! i) \<in> set ?loop
      else strip (re_split raw ! i) \<in> set (diagrams_shown ?loop)"
      by blast
    then show "if even i then Markdown (re_split raw ! i) \<in> set ?page
      else strip (re_split raw ! i) \<in> set (diagrams_shown ?page)"
      by (simp add: eq split: if_splits)
  qed
  moreover have "show_analysis type_error md download_button st_mermaid splitext_root (NonStr v) name =
      [Subheader, ErrorBox (''Could not generate HTML report: '' @ type_error v), Divider,
       ErrorBox (''An unexpected error occurred: '' @ type_error v),
       ErrorBox ''Raw LLM output:'', RawText (NonStr v)]"
    by (simp add: show_analysis_def export_button_def generate_html_report_of_def
        split_content_def)
  ultimately show ?thesis
    using eq nb by blast
qed

theorem export_failure_isolated_witness:
  "generate_html_report (\<lambda>t. Inl ''boom'') ''Intro text\<newline>```mermaid\<newline>A-->B\<newline>```\<newline>Outro text'' ''app.py''
     = Inl ''boom''
   \<and> show_analysis (\<lambda>v :: unit. ''TypeError'') (\<lambda>t. Inl ''boom'') (\<lambda>h f. Inr ())
        (\<lambda>d. Inr ()) (\<lambda>n. n)
        (Str ''Intro text\<newline>```mermaid\<newline>A-->B\<newline>```\<newline>Outro text'') ''app.py''
     = [Subheader, ErrorBox ''Could not generate HTML report: boom'', Divider,
        Markdown ''Intro text\<newline>'', MermaidChart ''A-->B'', CodeExpander ''A-->B'',
        Markdown ''\<newline>Outro text'']"
proof -
  let ?ex = "''Intro text\<newline>```mermaid\<newline>A-->B\<newline>```\<newline>Outro text''"
  have g: "generate_html_report (\<lambda>t. Inl ''boom'') ?ex ''app.py'' = Inl ''boom''"
    by (simp add: generate_html_report_def example_split)
  from export_failure_isolated [OF g, of "\<lambda>v :: unit. ''TypeError''" "\<lambda>h f. Inr ()"
      "\<lambda>d. Inr ()" "\<lambda>n. n"]
  have "show_analysis (\<lambda>v :: unit. ''TypeError'') (\<lambda>t. Inl ''boom'') (\<lambda>h f. Inr ())
        (\<lambda>d. Inr ()) (\<lambda>n. n) (Str ?ex) ''app.py''
     = [Subheader, ErrorBox (''Could not generate HTML report: '' @ ''boom''), Divider]
       @ render_parts (\<lambda>d. Inr ()) 0 (re_split ?ex)"
    by blast
  then show ?thesis
    using g by (simp add: example_split strip_example)
qed

text \<open>
  Claim C9 (odd length). The split of a text has \<open>2 * k + 1\<close> parts, where
  \<open>k\<close> is the number of fence pairs found; the number is odd, and the first
  and the last part are read as prose.
\<close>

theorem split_odd_length:
  "length (re_split s) = 2 * length (fence_bodies s) + 1
   \<and> odd (length (re_split s))
   \<and> hd (segments s) = Prose (hd (re_split s))
   \<and> last (segments s) = Prose (last (re_split s))"
proof -
  have len: "length (re_split s) = 2 * length (fence_bodies s) + 1"
    by (rule length_re_split)
  have "hd (segments s) = Prose (hd (re_split s))"
    using re_split_not_Nil [of s] by (cases "re_split s") (simp_all add: segments_def)
  moreover have "last (segments s) = Prose (last (re_split s))"
    using re_split_not_Nil [of s] len by (simp add: segments_def last_tag_parts)
  ultimately show ?thesis
    using len by simp
qed

text \<open>
  Claim C10 (the display name in the head). There are three fixed strings
  \<open>a\<close>, \<open>b\<close> and \<open>c\<close> such that, for every display name, the head of
  the document is \<open>a\<close>, the name, \<open>b\<close>, the name, \<open>c\<close>: the name stands
  there as it is given, with no character replaced, once after
  \<^verbatim>\<open><title>Code Analysis for\<close> and before \<^verbatim>\<open></title>\<close>, and once after
  \<^verbatim>\<open><h1>Code Analysis for\<close> and before \<^verbatim>\<open></h1>\<close>. What follows the head in
  the document does not depend on the name.
\<close>

theorem display_name_embedded_twice:
  \<open>\<exists>a b c.
     suffix ''<title>Code Analysis for '' a
     \<and> prefix ''</title>'' b \<and> suffix ''<h1>Code Analysis for '' b
     \<and> prefix ''</h1>'' c
     \<and> (\<forall>md raw name.
          html_header name = a @ name @ b @ name @ c
          \<and> generate_html_report md raw name =
              (case html_body md 0 (re_split raw) of
                 Inl e \<Rightarrow> Inl e
               | Inr hs \<Rightarrow> Inr (a @ name @ b @ name @ c @ concat (map emit hs) @ html_footer)))\<close>
  unfolding html_header_def generate_html_report_def
  apply (intro exI conjI allI)
       prefer 5
       apply (rule refl)
      prefer 5
      apply (simp only: append_assoc)
     apply (simp_all add: suffix_def)
  done

end
